theory Spec2Isabelle
  imports Main "HOL-Library.Word"
begin

unbundle bit_operations_syntax

section \<open>Signals and expressions\<close>

text \<open>
  The clock-reset generator \<open>_CRG\<close> of \<open>litex/soc-hr/ecp5_mini.py\<close> is a
  synchronous circuit in the clock domain \<open>por\<close>, which is driven by the 16 MHz
  reference clock and is declared \<open>reset_less\<close>. Its registers are stepped once per
  reference-clock edge (statements added to \<open>self.sync.por\<close>); its combinational
  signals (statements added to \<open>self.comb\<close>) are functions of the registers and of the
  inputs of the same tick.

  A one-bit \<open>Signal()\<close> is a \<open>1 word\<close>; the power-on counter \<open>Signal(12, ...)\<close> is a
  \<open>12 word\<close>.
\<close>

type_synonym bit1 = "1 word"

text \<open>
  An operand of an expression is either the level of a signal, or a Python integer:
  line 42 replaces a missing button by the integer \<open>1\<close>.
\<close>

datatype operand = Sig bit1 | Const int

text \<open>
  The operator \<open>~\<close>. On a signal it builds the one-bit complement. On a Python integer it
  is evaluated by Python itself (\<open>~1 = -2\<close>), and the integer that results is cut to
  the width of the one-bit signal it is combined with and assigned to.
\<close>

fun invert :: "operand \<Rightarrow> bit1" where
  "invert (Sig s) = NOT s"
| "invert (Const k) = word_of_int (NOT k)"

section \<open>The platform\<close>

text \<open>
  \<open>platform.request("usr_btn", loose=True)\<close> gives the signal of the pin when the
  platform has the resource, and \<open>None\<close> when it has not. The first argument says whether
  the resource exists, the second is the level of the pin on the current tick. The table
  \<open>_io\<close> of \<open>platform/ecp5_mini.py\<close> lists \<open>usr_btn\<close> (pin T6), so on this board the
  resource exists; the other case is that of a platform without the button.
\<close>

definition request_usr_btn :: "bool \<Rightarrow> bit1 \<Rightarrow> bit1 option" where
  "request_usr_btn present level = (if present then Some level else None)"

text \<open>Lines 41 and 42: \<open>if rst_n is None: rst_n = 1\<close>.\<close>

definition rst_n :: "bool \<Rightarrow> bit1 \<Rightarrow> operand" where
  "rst_n present level =
     (case request_usr_btn present level of None \<Rightarrow> Const 1 | Some s \<Rightarrow> Sig s)"

section \<open>Power-on reset\<close>

text \<open>Line 45: \<open>por_count = Signal(12, reset=2**12-1)\<close>.\<close>

definition por_count_reset :: "12 word" where
  "por_count_reset = 2 ^ 12 - 1"

text \<open>Line 48: \<open>por_done.eq(por_count == 0)\<close>.\<close>

definition por_done :: "12 word \<Rightarrow> bit1" where
  "por_done c = (if c = 0 then 1 else 0)"

text \<open>Line 49: \<open>If(~por_done, por_count.eq(por_count - 1))\<close>, on every edge.\<close>

definition por_next :: "12 word \<Rightarrow> 12 word" where
  "por_next c = (if NOT (por_done c) \<noteq> 0 then c - 1 else c)"

text \<open>The counter after \<open>n\<close> edges.\<close>

fun por_run :: "nat \<Rightarrow> 12 word \<Rightarrow> 12 word" where
  "por_run 0 c = c"
| "por_run (Suc n) c = por_run n (por_next c)"

section \<open>PLL reset\<close>

text \<open>Line 53: \<open>pll.reset.eq(~por_done | ~rst_n | self.rst)\<close>.\<close>

definition pll_reset :: "12 word \<Rightarrow> operand \<Rightarrow> bit1 \<Rightarrow> bit1" where
  "pll_reset c rstn r = NOT (por_done c) OR invert rstn OR r"

section \<open>The wait timer\<close>

text \<open>
  What \<open>_CRG\<close> uses of a timer instance: its state after configuration, its register
  update on an edge given the level of its input \<open>wait\<close>, and its output \<open>done\<close> as a
  function of its state. \<open>_CRG\<close> is modelled over any such timer; the timer it
  instantiates is given below.
\<close>

record 'w timer =
  timer_reset :: 'w
  timer_sync :: "bit1 \<Rightarrow> 'w \<Rightarrow> 'w"
  timer_done :: "'w \<Rightarrow> bit1"

text \<open>A timer stepped over the levels of \<open>wait\<close>, one per edge.\<close>

fun timer_run :: "'w timer \<Rightarrow> bit1 list \<Rightarrow> 'w \<Rightarrow> 'w" where
  "timer_run tm [] s = s"
| "timer_run tm (w # ws) s = timer_run tm ws (timer_sync tm w s)"

text \<open>
  Modelled from the spec: the class \<open>WaitTimer\<close>, imported on line 17 from
  \<open>migen.genlib.misc\<close>, is not among the source files. Section 4.2 of the specification
  gives its contract: a counter \<open>elapsed\<close> and a flag \<open>triggered\<close>, idle with
  \<open>elapsed = 0\<close> and \<open>triggered = false\<close>; on a tick where \<open>wait\<close> is true
  \<open>elapsed\<close> is incremented and, if \<open>elapsed \<ge> target_ticks\<close>, \<open>triggered\<close> is
  set; on a tick where \<open>wait\<close> is false both are reset. The first tick with \<open>wait\<close>
  true counts: section 4.3 has a timer of target 0 trigger on the very first tick on which
  the button is held. Section 7 asks that a target of zero or less be refused when the
  timer is configured; the step below is defined for every target, and each claim says
  what it assumes of the target.
\<close>

record wait_timer =
  elapsed :: nat
  triggered :: bool

definition wait_timer_idle :: wait_timer where
  "wait_timer_idle = \<lparr>elapsed = 0, triggered = False\<rparr>"

definition wait_timer_step :: "int \<Rightarrow> bool \<Rightarrow> wait_timer \<Rightarrow> wait_timer" where
  "wait_timer_step target_ticks wait s =
     (if wait then
        \<lparr>elapsed = elapsed s + 1,
         triggered = (if target_ticks \<le> int (elapsed s + 1) then True else triggered s)\<rparr>
      else wait_timer_idle)"

fun wait_timer_run :: "int \<Rightarrow> bool list \<Rightarrow> wait_timer \<Rightarrow> wait_timer" where
  "wait_timer_run t [] s = s"
| "wait_timer_run t (w # ws) s = wait_timer_run t ws (wait_timer_step t w s)"

text \<open>
  Modelled from the spec: the constructor \<open>WaitTimer(t)\<close> of the same absent class, with
  the signals \<open>wait\<close> and \<open>done\<close> that lines 72 and 73 connect; \<open>done\<close> carries
  \<open>triggered\<close>.
\<close>

definition WaitTimer :: "int \<Rightarrow> wait_timer timer" where
  "WaitTimer t =
     \<lparr>timer_reset = wait_timer_idle,
      timer_sync = (\<lambda>wait s. wait_timer_step t (wait \<noteq> 0) s),
      timer_done = (\<lambda>s. if triggered s then 1 else 0)\<rparr>"

section \<open>The clock-reset generator\<close>

text \<open>
  The registers of \<open>_CRG\<close>: the power-on counter and the state of \<open>reset_timer\<close>.
  Its inputs on a tick: the level of the pin \<open>usr_btn\<close> (read only when the platform has the
  pin) and of \<open>self.rst\<close>. The second PLL (lines 58 to 66) takes \<open>~por_done\<close> alone and
  feeds nothing back; it is left out.
\<close>

record 'w crg =
  por_count :: "12 word"
  reset_timer :: 'w

record crg_in =
  usr_btn :: bit1
  rst :: bit1

text \<open>Line 69: \<open>reset_timer = WaitTimer(int(16e6))\<close>.\<close>

definition reset_timer_t :: int where
  "reset_timer_t = 16000000"

definition reset_timer_inst :: "wait_timer timer" where
  "reset_timer_inst = WaitTimer reset_timer_t"

text \<open>Line 72: \<open>reset_timer.wait.eq(~rst_n)\<close>.\<close>

definition reset_timer_wait :: "operand \<Rightarrow> bit1" where
  "reset_timer_wait rstn = invert rstn"

text \<open>Line 73: \<open>platform.request("rst_n").eq(~reset_timer.done)\<close>.\<close>

definition rst_n_pin :: "'w timer \<Rightarrow> 'w \<Rightarrow> bit1" where
  "rst_n_pin tm s = NOT (timer_done tm s)"

text \<open>The registers after power-up.\<close>

definition crg_reset :: "'w timer \<Rightarrow> 'w crg" where
  "crg_reset tm = \<lparr>por_count = por_count_reset, reset_timer = timer_reset tm\<rparr>"

text \<open>One edge of the clock domain \<open>por\<close>: both registers are clocked by it (line 70).\<close>

definition crg_sync :: "'w timer \<Rightarrow> bool \<Rightarrow> crg_in \<Rightarrow> 'w crg \<Rightarrow> 'w crg" where
  "crg_sync tm present i s =
     \<lparr>por_count = por_next (por_count s),
      reset_timer =
        timer_sync tm (reset_timer_wait (rst_n present (usr_btn i))) (reset_timer s)\<rparr>"

fun crg_run :: "'w timer \<Rightarrow> bool \<Rightarrow> crg_in list \<Rightarrow> 'w crg \<Rightarrow> 'w crg" where
  "crg_run tm present [] s = s"
| "crg_run tm present (i # ins) s = crg_run tm present ins (crg_sync tm present i s)"

text \<open>The two outputs on a tick.\<close>

definition crg_pll_reset :: "bool \<Rightarrow> 'w crg \<Rightarrow> crg_in \<Rightarrow> bit1" where
  "crg_pll_reset present s i = pll_reset (por_count s) (rst_n present (usr_btn i)) (rst i)"

definition crg_rst_n :: "'w timer \<Rightarrow> 'w crg \<Rightarrow> bit1" where
  "crg_rst_n tm s = rst_n_pin tm (reset_timer s)"

section \<open>One-bit signals\<close>

lemma bit1_cases: "(x :: bit1) = 0 \<or> x = 1"
proof -
  have "unat x < 2"
    using unsigned_less [of x, where ?'a = nat] by simp
  then have "unat x = 0 \<or> unat x = 1"
    by arith
  then show ?thesis
    by (auto simp: word_unat_eq_iff)
qed

lemma bit1_neq_0: "(x :: bit1) \<noteq> 0 \<longleftrightarrow> x = 1"
  using bit1_cases [of x] by auto

lemma bit1_neq_1: "(x :: bit1) \<noteq> 1 \<longleftrightarrow> x = 0"
  using bit1_cases [of x] by auto

lemma bit1_not_neq_0: "NOT (x :: bit1) \<noteq> 0 \<longleftrightarrow> x = 0"
  using bit1_cases [of x] by auto

section \<open>The power-on counter\<close>

lemma por_next_unat: "unat (por_next c) = unat c - 1"
  by (cases "c = 0") (simp_all add: por_next_def por_done_def unat_minus_one)

lemma por_run_unat: "unat (por_run n c) = unat c - n"
  by (induction n arbitrary: c) (simp_all add: por_next_unat)

lemma por_done_iff: "por_done c = 1 \<longleftrightarrow> c = 0"
  by (simp add: por_done_def)

lemma por_run_done: "por_done (por_run n c) = 1 \<longleftrightarrow> unat c \<le> n"
  by (simp add: por_done_iff por_run_unat flip: unat_eq_0)

lemma por_run_add: "por_run (m + n) c = por_run n (por_run m c)"
  by (induction m arbitrary: c) simp_all

section \<open>The button operand\<close>

lemma invert_absent: "invert (rst_n False b) = 0"
  by (simp add: rst_n_def request_usr_btn_def)

lemma invert_present: "invert (rst_n True b) = NOT b"
  by (simp add: rst_n_def request_usr_btn_def)

lemma rst_n_absent: "rst_n False b = Const 1"
  by (simp add: rst_n_def request_usr_btn_def)

lemma rst_n_present: "rst_n True b = Sig b"
  by (simp add: rst_n_def request_usr_btn_def)

lemma timer_wait_held: "reset_timer_wait (rst_n True b) \<noteq> 0 \<longleftrightarrow> b = 0"
  by (simp add: reset_timer_wait_def invert_present bit1_not_neq_0)

section \<open>Runs of the wait timer\<close>

lemma wait_timer_step_False: "wait_timer_step t False s = wait_timer_idle"
  by (simp add: wait_timer_step_def)

lemma wait_timer_run_append:
  "wait_timer_run t (xs @ ys) s = wait_timer_run t ys (wait_timer_run t xs s)"
  by (induction xs arbitrary: s) simp_all

lemma wait_timer_run_snoc:
  "wait_timer_run t (ws @ [w]) s = wait_timer_step t w (wait_timer_run t ws s)"
  by (simp add: wait_timer_run_append)

text \<open>
  From the idle state and for a positive target, \<open>elapsed\<close> is the length of the run of
  ticks with \<open>wait\<close> true that ends the input, and \<open>triggered\<close> says that this run has
  reached the target.
\<close>

lemma wait_timer_run_idle:
  assumes "0 < t"
  shows "wait_timer_run t ws wait_timer_idle =
    \<lparr>elapsed = length (takeWhile id (rev ws)),
     triggered = (t \<le> int (length (takeWhile id (rev ws))))\<rparr>"
proof (induction ws rule: rev_induct)
  case Nil
  from assms show ?case by (simp add: wait_timer_idle_def)
next
  case (snoc w ws)
  show ?case
  proof (cases w)
    case True
    then show ?thesis
      by (simp add: wait_timer_run_snoc snoc wait_timer_step_def)
  next
    case False
    with assms show ?thesis
      by (simp add: wait_timer_run_snoc wait_timer_step_def wait_timer_idle_def)
  qed
qed

lemma wait_timer_run_hold:
  assumes "0 < t"
  shows "wait_timer_run t (replicate k True) wait_timer_idle =
    \<lparr>elapsed = k, triggered = (t \<le> int k)\<rparr>"
proof -
  have "takeWhile id (replicate k True) = replicate k True"
    by (rule takeWhile_eq_all_conv [THEN iffD2]) simp
  with wait_timer_run_idle [OF assms, of "replicate k True"] show ?thesis
    by simp
qed

lemma wait_timer_run_all_False:
  "wait_timer_run t (replicate n False) wait_timer_idle = wait_timer_idle"
  by (induction n) (simp_all add: wait_timer_step_False)

lemma WaitTimer_reset: "timer_reset (WaitTimer t) = wait_timer_idle"
  by (simp add: WaitTimer_def)

lemma WaitTimer_sync: "timer_sync (WaitTimer t) w s = wait_timer_step t (w \<noteq> 0) s"
  by (simp add: WaitTimer_def)

lemma WaitTimer_done: "timer_done (WaitTimer t) s = (if triggered s then 1 else 0)"
  by (simp add: WaitTimer_def)

lemma timer_run_WaitTimer:
  "timer_run (WaitTimer t) ws s = wait_timer_run t (map (\<lambda>w. w \<noteq> 0) ws) s"
  by (induction ws arbitrary: s) (simp_all add: WaitTimer_def)

section \<open>Runs of the clock-reset generator\<close>

lemma crg_run_reset_timer:
  "reset_timer (crg_run tm p ins s) =
     timer_run tm (map (\<lambda>i. reset_timer_wait (rst_n p (usr_btn i))) ins) (reset_timer s)"
  by (induction ins arbitrary: s) (simp_all add: crg_sync_def)

lemma crg_run_por_count:
  "por_count (crg_run tm p ins s) = por_run (length ins) (por_count s)"
  by (induction ins arbitrary: s) (simp_all add: crg_sync_def)

text \<open>The timer sees the button and nothing else.\<close>

lemma crg_run_timer_cong:
  assumes "map usr_btn ins1 = map usr_btn ins2" and "reset_timer s1 = reset_timer s2"
  shows "reset_timer (crg_run tm p ins1 s1) = reset_timer (crg_run tm p ins2 s2)"
proof -
  have "map (\<lambda>i. reset_timer_wait (rst_n p (usr_btn i))) ins1 =
        map (\<lambda>b. reset_timer_wait (rst_n p b)) (map usr_btn ins1)"
    by (simp add: o_def)
  also have "\<dots> = map (\<lambda>b. reset_timer_wait (rst_n p b)) (map usr_btn ins2)"
    by (simp only: assms(1))
  also have "\<dots> = map (\<lambda>i. reset_timer_wait (rst_n p (usr_btn i))) ins2"
    by (simp add: o_def)
  finally show ?thesis
    by (simp add: crg_run_reset_timer assms(2))
qed

text \<open>Without the button the generator runs as with a button that is never pressed.\<close>

lemma crg_sync_absent: "crg_sync tm False i s = crg_sync tm True (i\<lparr>usr_btn := 1\<rparr>) s"
  by (simp add: crg_sync_def reset_timer_wait_def rst_n_absent rst_n_present)

lemma crg_run_absent:
  "crg_run tm False ins s = crg_run tm True (map (\<lambda>i. i\<lparr>usr_btn := 1\<rparr>) ins) s"
  by (induction ins arbitrary: s) (simp_all add: crg_sync_absent)

lemma crg_run_absent_timer:
  "reset_timer (crg_run (WaitTimer t) False ins s) =
     wait_timer_run t (replicate (length ins) False) (reset_timer s)"
  by (simp add: crg_run_reset_timer timer_run_WaitTimer reset_timer_wait_def invert_absent
      o_def map_replicate_const)

text \<open>With the button, the timer counts the ticks on which the pin is low.\<close>

lemma held_run_length:
  "length (takeWhile id (rev (map (\<lambda>i. usr_btn i = 0) ins))) =
   length (takeWhile (\<lambda>i. usr_btn i = 0) (rev ins))"
  by (simp add: rev_map takeWhile_map o_def)

lemma crg_run_WaitTimer:
  assumes "0 < t"
  shows "reset_timer (crg_run (WaitTimer t) True ins (crg_reset (WaitTimer t))) =
    \<lparr>elapsed = length (takeWhile (\<lambda>i. usr_btn i = 0) (rev ins)),
     triggered = (t \<le> int (length (takeWhile (\<lambda>i. usr_btn i = 0) (rev ins))))\<rparr>"
proof -
  have "reset_timer (crg_run (WaitTimer t) True ins (crg_reset (WaitTimer t))) =
      wait_timer_run t (map (\<lambda>i. usr_btn i = 0) ins) wait_timer_idle"
    by (simp add: crg_run_reset_timer timer_run_WaitTimer crg_reset_def WaitTimer_reset
        o_def timer_wait_held)
  then show ?thesis
    by (simp only: wait_timer_run_idle [OF assms] held_run_length)
qed

lemma crg_sync_wait:
  "reset_timer (crg_sync tm True i s) = timer_sync tm (NOT (usr_btn i)) (reset_timer s)"
  by (simp add: crg_sync_def reset_timer_wait_def invert_present)

lemma crg_rst_n_WaitTimer:
  "crg_rst_n (WaitTimer t) s = (if triggered (reset_timer s) then 0 else 1)"
  by (simp add: crg_rst_n_def rst_n_pin_def WaitTimer_done)

lemma crg_rst_n_hold:
  assumes "0 < t"
  shows "crg_rst_n (WaitTimer t) (crg_run (WaitTimer t) True ins (crg_reset (WaitTimer t))) = 0
    \<longleftrightarrow> t \<le> int (length (takeWhile (\<lambda>i. usr_btn i = 0) (rev ins)))"
  by (simp add: crg_rst_n_WaitTimer crg_run_WaitTimer [OF assms])

section \<open>Claims about the PLL reset and the power-on counter\<close>

text \<open>
  C1. On every tick, with the button present, \<open>pll.reset\<close> is
  \<open>~por_done | ~usr_btn | rst\<close>: it is 1 exactly when the power-on counter has not
  finished, or the button pin is low (held), or \<open>self.rst\<close> is 1. It is a function of
  the counter and of the inputs of the tick alone (the state of the wait timer does not
  enter). Whether the button is present or not, it is 1 whenever the counter has not
  finished, and 1 whenever \<open>self.rst\<close> is 1.
\<close>

theorem pll_reset_combinational:
  "crg_pll_reset True s i = NOT (por_done (por_count s)) OR NOT (usr_btn i) OR rst i
   \<and> (crg_pll_reset True s i = 1 \<longleftrightarrow>
        por_done (por_count s) = 0 \<or> usr_btn i = 0 \<or> rst i = 1)
   \<and> crg_pll_reset present (s\<lparr>reset_timer := w\<rparr>) i = crg_pll_reset present s i
   \<and> (por_done (por_count s) = 0 \<longrightarrow> crg_pll_reset present s i = 1)
   \<and> (rst i = 1 \<longrightarrow> crg_pll_reset present s i = 1)"
  using bit1_cases [of "por_done (por_count s)"] bit1_cases [of "usr_btn i"]
    bit1_cases [of "rst i"] bit1_cases [of "invert (rst_n present (usr_btn i))"]
  by (auto simp: crg_pll_reset_def pll_reset_def invert_present)

theorem pll_reset_combinational_witness:
  "por_done (por_count (crg_reset (WaitTimer reset_timer_t))) = 0
   \<and> crg_pll_reset True (crg_reset (WaitTimer reset_timer_t)) \<lparr>usr_btn = 1, rst = 0\<rparr> = 1
   \<and> rst \<lparr>usr_btn = 1, rst = 1\<rparr> = 1
   \<and> crg_pll_reset True \<lparr>por_count = 0, reset_timer = wait_timer_idle\<rparr>
        \<lparr>usr_btn = 1, rst = 1\<rparr> = 1
   \<and> crg_pll_reset True \<lparr>por_count = 0, reset_timer = wait_timer_idle\<rparr>
        \<lparr>usr_btn = 1, rst = 0\<rparr> = 0"
  using
    pll_reset_combinational
      [of "crg_reset (WaitTimer reset_timer_t)" "\<lparr>usr_btn = 1, rst = 0\<rparr>" True]
    pll_reset_combinational
      [of "\<lparr>por_count = 0, reset_timer = wait_timer_idle\<rparr>" "\<lparr>usr_btn = 1, rst = 1\<rparr>" True]
    pll_reset_combinational
      [of "\<lparr>por_count = 0, reset_timer = wait_timer_idle\<rparr>" "\<lparr>usr_btn = 1, rst = 0\<rparr>" True]
  by (simp add: crg_reset_def por_count_reset_def por_done_def)

text \<open>
  C2. Started at any count \<open>c\<close>, the counter after \<open>n\<close> edges gives \<open>por_done = 1\<close>
  exactly when \<open>n\<close> has reached \<open>c\<close>: \<open>por_done\<close> is 0 on the first \<open>c\<close> ticks (the
  ticks that see the counter after 0, 1, ..., \<open>c - 1\<close> edges) and 1 on every later one.
  With \<open>c = 0\<close> it is 1 on the first tick. The counter of \<open>_CRG\<close> runs this way whatever
  its inputs are, and starts at 4095.
\<close>

theorem por_ready_after_initial_count:
  "por_done (por_run n c) = (if unat c \<le> n then 1 else 0)
   \<and> por_done (por_run 0 0) = 1
   \<and> por_count (crg_run tm p ins s) = por_run (length ins) (por_count s)
   \<and> unat (por_count (crg_reset tm)) = 4095"
  using bit1_neq_1 [of "por_done (por_run n c)"] por_run_done [of n c]
  by (auto simp: crg_run_por_count crg_reset_def por_count_reset_def por_done_def)

text \<open>
  C6. In every state of the counter an edge leaves it unchanged or takes one off its
  value (read as a natural number, so without wrapping); it changes only while
  \<open>por_done\<close> is 0; at 0 it stays 0; and once \<open>por_done\<close> is 1 after \<open>m\<close> edges it
  is 1 after any further \<open>n\<close> edges.
\<close>

theorem por_count_never_rearms:
  "(por_next c = c \<or> unat (por_next c) + 1 = unat c)
   \<and> (por_next c \<noteq> c \<longrightarrow> por_done c = 0)
   \<and> por_next 0 = 0
   \<and> unat (por_next c) \<le> unat c
   \<and> (por_done (por_run m c) = 1 \<longrightarrow> por_done (por_run (m + n) c) = 1)"
proof -
  have "por_next c = c \<or> unat (por_next c) + 1 = unat c"
    by (cases "c = 0") (simp_all add: por_next_def por_done_def unat_minus_one unat_gt_0)
  moreover have "por_next c \<noteq> c \<longrightarrow> por_done c = 0"
    by (simp add: por_next_def por_done_def)
  moreover have "por_next 0 = 0"
    by (simp add: por_next_def por_done_def)
  moreover have "unat (por_next c) \<le> unat c"
    by (simp add: por_next_unat)
  moreover have "por_done (por_run m c) = 1 \<longrightarrow> por_done (por_run (m + n) c) = 1"
    by (simp add: por_run_done)
  ultimately show ?thesis
    by blast
qed

theorem por_count_never_rearms_witness:
  "por_next (5 :: 12 word) \<noteq> 5 \<and> por_done (5 :: 12 word) = 0
   \<and> unat (por_next (5 :: 12 word)) + 1 = unat (5 :: 12 word)
   \<and> por_done (por_run 2 2) = 1 \<and> por_done (por_run (2 + 3) 2) = 1"
proof -
  have a: "por_next (5 :: 12 word) \<noteq> 5"
    by (simp add: por_next_def por_done_def)
  have b: "por_done (por_run 2 2) = 1"
    by code_simp
  from a b por_count_never_rearms [of 5 0 0] por_count_never_rearms [of 2 2 3]
  show ?thesis
    by blast
qed

section \<open>Claims about the wait timer\<close>

text \<open>
  C3. For a positive target \<open>t\<close>, a wait timer stepped from the idle state with
  \<open>wait\<close> true on every tick has \<open>triggered\<close> after \<open>k\<close> ticks exactly when
  \<open>k\<close> has reached \<open>t\<close>: false after each of the first \<open>t - 1\<close> ticks, true after tick
  \<open>t\<close> and after every later one, with \<open>elapsed = k\<close>. In any state, a tick with
  \<open>wait\<close> false sets \<open>elapsed\<close> to 0 and \<open>triggered\<close> to false in that step.
\<close>

theorem wait_timer_triggers_at_target:
  assumes "0 < t"
  shows "(triggered (wait_timer_run t (replicate k True) wait_timer_idle) \<longleftrightarrow> t \<le> int k)
    \<and> elapsed (wait_timer_run t (replicate k True) wait_timer_idle) = k
    \<and> wait_timer_step t False s = \<lparr>elapsed = 0, triggered = False\<rparr>"
  by (simp add: wait_timer_run_hold [OF assms]) (simp add: wait_timer_step_def wait_timer_idle_def)

theorem wait_timer_triggers_at_target_witness:
  "(0 :: int) < 3
   \<and> \<not> triggered (wait_timer_run 3 (replicate 1 True) wait_timer_idle)
   \<and> \<not> triggered (wait_timer_run 3 (replicate 2 True) wait_timer_idle)
   \<and> triggered (wait_timer_run 3 (replicate 3 True) wait_timer_idle)
   \<and> triggered (wait_timer_run 3 (replicate 4 True) wait_timer_idle)
   \<and> wait_timer_step 3 False \<lparr>elapsed = 4, triggered = True\<rparr> =
       \<lparr>elapsed = 0, triggered = False\<rparr>"
proof -
  have h: "(0 :: int) < 3"
    by simp
  from wait_timer_triggers_at_target [OF h, of 1] wait_timer_triggers_at_target [OF h, of 2]
    wait_timer_triggers_at_target [OF h, of 3]
    wait_timer_triggers_at_target [OF h, of 4 "\<lparr>elapsed = 4, triggered = True\<rparr>"]
  show ?thesis
    by simp
qed

text \<open>
  C5, as stated, fails for the targets 1 to 5: the first five ticks with \<open>wait\<close> true
  already reach the target. With the target 3 the timer has triggered after the third tick
  of the sequence.
\<close>

theorem wait_timer_no_memory_counterexample:
  "(0 :: int) < 3
   \<and> triggered (wait_timer_run 3
        (take 3 (replicate 5 True @ [False] @ replicate (nat (3 - 1)) True)) wait_timer_idle)"
  by (simp add: wait_timer_step_def wait_timer_idle_def numeral_3_eq_3)

text \<open>
  C5, amended. For a positive target \<open>t\<close> and from any state, after a tick with \<open>wait\<close>
  false a run of \<open>n\<close> ticks with \<open>wait\<close> true gives \<open>triggered\<close> exactly when \<open>n\<close>
  has reached \<open>t\<close>: nothing of the earlier progress is kept. In the sequence of five ticks
  with \<open>wait\<close> true, one with \<open>wait\<close> false and \<open>t - 1\<close> with \<open>wait\<close> true,
  \<open>triggered\<close> is false after every tick from the sixth on, and after every tick of the
  sequence when \<open>t\<close> is greater than 5. After each of the first five ticks, the \<open>k\<close>-th
  say, \<open>triggered\<close> holds exactly when \<open>k\<close> has reached \<open>t\<close>: for a target of at most
  5 it is false before tick \<open>t\<close> and true from tick \<open>t\<close> to tick 5.
\<close>

theorem wait_timer_no_memory:
  assumes "0 < t"
  shows "(triggered (wait_timer_run t (replicate n True) (wait_timer_step t False s)) \<longleftrightarrow> t \<le> int n)
    \<and> (5 < t \<or> 6 \<le> k \<longrightarrow>
        \<not> triggered (wait_timer_run t
            (take k (replicate 5 True @ [False] @ replicate (nat (t - 1)) True)) wait_timer_idle))
    \<and> (k \<le> 5 \<longrightarrow>
        (triggered (wait_timer_run t
            (take k (replicate 5 True @ [False] @ replicate (nat (t - 1)) True)) wait_timer_idle)
         \<longleftrightarrow> t \<le> int k))"
proof -
  let ?ws = "replicate 5 True @ [False] @ replicate (nat (t - 1)) True"
  have restart: "triggered (wait_timer_run t (replicate n True) (wait_timer_step t False s))
      \<longleftrightarrow> t \<le> int n" for n s
    by (simp add: wait_timer_step_False wait_timer_run_hold [OF assms])
  have first: "triggered (wait_timer_run t (take k ?ws) wait_timer_idle) \<longleftrightarrow> t \<le> int k"
    if "k \<le> 5"
  proof -
    from that have "take k ?ws = replicate k True"
      by (simp add: min_def)
    then show ?thesis
      by (simp add: wait_timer_run_hold [OF assms])
  qed
  have early: "\<not> triggered (wait_timer_run t (take k ?ws) wait_timer_idle)" if "k \<le> 5" "5 < t"
  proof -
    from that have "\<not> t \<le> int k"
      by simp
    with first [OF that(1)] show ?thesis
      by blast
  qed
  have late: "\<not> triggered (wait_timer_run t (take k ?ws) wait_timer_idle)" if "6 \<le> k"
  proof -
    from that obtain j where k: "k = 6 + j"
      by (auto simp: le_iff_add)
    have "take k ?ws = replicate 5 True @ [False] @ replicate (min j (nat (t - 1))) True"
      by (simp add: k min.commute)
    then have "wait_timer_run t (take k ?ws) wait_timer_idle =
        wait_timer_run t (replicate (min j (nat (t - 1))) True)
          (wait_timer_step t False (wait_timer_run t (replicate 5 True) wait_timer_idle))"
      by (simp only: wait_timer_run_append wait_timer_run.simps)
    with assms show ?thesis
      by (simp add: restart)
  qed
  have "\<not> triggered (wait_timer_run t (take k ?ws) wait_timer_idle)" if "5 < t \<or> 6 \<le> k"
  proof (cases "6 \<le> k")
    case True
    then show ?thesis
      by (rule late)
  next
    case False
    with that have "k \<le> 5" and "5 < t"
      by simp_all
    then show ?thesis
      by (rule early)
  qed
  with restart first show ?thesis
    by blast
qed

theorem wait_timer_no_memory_witness:
  "(0 :: int) < 7 \<and> (5 :: int) < 7 \<and> (0 :: int) < 3 \<and> (2 :: nat) \<le> 5 \<and> (4 :: nat) \<le> 5
   \<and> \<not> triggered (wait_timer_run 7 (replicate 6 True)
         (wait_timer_step 7 False \<lparr>elapsed = 5, triggered = False\<rparr>))
   \<and> triggered (wait_timer_run 7 (replicate 7 True)
         (wait_timer_step 7 False \<lparr>elapsed = 5, triggered = False\<rparr>))
   \<and> \<not> triggered (wait_timer_run 7
         (take 12 (replicate 5 True @ [False] @ replicate (nat (7 - 1)) True)) wait_timer_idle)
   \<and> \<not> triggered (wait_timer_run 3
         (take 2 (replicate 5 True @ [False] @ replicate (nat (3 - 1)) True)) wait_timer_idle)
   \<and> triggered (wait_timer_run 3
         (take 4 (replicate 5 True @ [False] @ replicate (nat (3 - 1)) True)) wait_timer_idle)
   \<and> \<not> triggered (wait_timer_run 3
         (take 8 (replicate 5 True @ [False] @ replicate (nat (3 - 1)) True)) wait_timer_idle)"
proof -
  have h: "(0 :: int) < 7" and h': "(5 :: int) < 7" and g: "(0 :: int) < 3"
    by simp_all
  have a: "\<not> triggered (wait_timer_run 7 (replicate 6 True)
         (wait_timer_step 7 False \<lparr>elapsed = 5, triggered = False\<rparr>))"
    using wait_timer_no_memory [OF h, of 6 "\<lparr>elapsed = 5, triggered = False\<rparr>" 12] by simp
  have b: "triggered (wait_timer_run 7 (replicate 7 True)
         (wait_timer_step 7 False \<lparr>elapsed = 5, triggered = False\<rparr>))"
    using wait_timer_no_memory [OF h, of 7 "\<lparr>elapsed = 5, triggered = False\<rparr>" 12] by simp
  have c: "\<not> triggered (wait_timer_run 7
         (take 12 (replicate 5 True @ [False] @ replicate (nat (7 - 1)) True)) wait_timer_idle)"
    using h' wait_timer_no_memory [OF h, of 0 wait_timer_idle 12] by blast
  have d: "\<not> triggered (wait_timer_run 3
         (take 2 (replicate 5 True @ [False] @ replicate (nat (3 - 1)) True)) wait_timer_idle)"
    using wait_timer_no_memory [OF g, of 0 wait_timer_idle 2] by simp
  have e: "triggered (wait_timer_run 3
         (take 4 (replicate 5 True @ [False] @ replicate (nat (3 - 1)) True)) wait_timer_idle)"
    using wait_timer_no_memory [OF g, of 0 wait_timer_idle 4] by simp
  have f: "\<not> triggered (wait_timer_run 3
         (take 8 (replicate 5 True @ [False] @ replicate (nat (3 - 1)) True)) wait_timer_idle)"
    using wait_timer_no_memory [OF g, of 0 wait_timer_idle 8] by simp
  from a b c d e f show ?thesis
    by simp
qed

section \<open>Claims about the button and the board reset\<close>

text \<open>
  C4. With the button present, the input \<open>wait\<close> of the timer is the complement of the
  button pin and the pin \<open>rst_n\<close> is the complement of \<open>done\<close>, for any timer. With the
  wait timer, \<open>wait\<close> is true on the ticks where the pin is low and the pin \<open>rst_n\<close> is
  0 when \<open>triggered\<close> holds. From power-up and for a positive target, after any inputs the
  pin \<open>rst_n\<close> is 0 exactly when the ticks on which the button was held that end the
  inputs number at least the target; for the timer of \<open>_CRG\<close> the target is 16000000
  ticks, one second at 16 MHz.
\<close>

theorem button_hold_fires_fallback:
  "reset_timer (crg_sync tm True i s) = timer_sync tm (NOT (usr_btn i)) (reset_timer s)
   \<and> crg_rst_n tm s = NOT (timer_done tm (reset_timer s))
   \<and> reset_timer (crg_sync (WaitTimer t) True i s) =
       wait_timer_step t (usr_btn i = 0) (reset_timer s)
   \<and> crg_rst_n (WaitTimer t) s = (if triggered (reset_timer s) then 0 else 1)
   \<and> (0 < t \<longrightarrow>
       (crg_rst_n (WaitTimer t) (crg_run (WaitTimer t) True ins (crg_reset (WaitTimer t))) = 0
        \<longleftrightarrow> t \<le> int (length (takeWhile (\<lambda>i. usr_btn i = 0) (rev ins)))))
   \<and> (crg_rst_n reset_timer_inst
         (crg_run reset_timer_inst True ins (crg_reset reset_timer_inst)) = 0
        \<longleftrightarrow> 16000000 \<le> length (takeWhile (\<lambda>i. usr_btn i = 0) (rev ins)))"
proof -
  have pin: "crg_rst_n tm s = NOT (timer_done tm (reset_timer s))"
    by (simp add: crg_rst_n_def rst_n_pin_def)
  have wait: "reset_timer (crg_sync (WaitTimer t) True i s) =
       wait_timer_step t (usr_btn i = 0) (reset_timer s)"
    by (simp add: crg_sync_wait WaitTimer_sync bit1_not_neq_0)
  have "(0 :: int) < reset_timer_t"
    by (simp add: reset_timer_t_def)
  from crg_rst_n_hold [OF this, of ins]
  have "crg_rst_n reset_timer_inst
          (crg_run reset_timer_inst True ins (crg_reset reset_timer_inst)) = 0
        \<longleftrightarrow> 16000000 \<le> length (takeWhile (\<lambda>i. usr_btn i = 0) (rev ins))"
    by (simp add: reset_timer_inst_def reset_timer_t_def)
  with pin wait crg_sync_wait [of tm i s] crg_rst_n_WaitTimer [of t s] crg_rst_n_hold [of t ins]
  show ?thesis
    by blast
qed

theorem button_hold_fires_fallback_witness:
  "(0 :: int) < 2
   \<and> crg_rst_n (WaitTimer 2) (crg_run (WaitTimer 2) True
        [\<lparr>usr_btn = 1, rst = 0\<rparr>, \<lparr>usr_btn = 0, rst = 0\<rparr>, \<lparr>usr_btn = 0, rst = 0\<rparr>]
        (crg_reset (WaitTimer 2))) = 0
   \<and> crg_rst_n (WaitTimer 2) (crg_run (WaitTimer 2) True
        [\<lparr>usr_btn = 0, rst = 0\<rparr>, \<lparr>usr_btn = 1, rst = 0\<rparr>, \<lparr>usr_btn = 0, rst = 0\<rparr>]
        (crg_reset (WaitTimer 2))) = 1"
proof -
  let ?a = "[\<lparr>usr_btn = 1, rst = 0\<rparr>, \<lparr>usr_btn = 0, rst = 0\<rparr>, \<lparr>usr_btn = 0, rst = 0\<rparr>]"
  let ?b = "[\<lparr>usr_btn = 0, rst = 0\<rparr>, \<lparr>usr_btn = 1, rst = 0\<rparr>, \<lparr>usr_btn = 0, rst = 0\<rparr>]"
  have h: "(0 :: int) < 2"
    by simp
  have a: "crg_rst_n (WaitTimer 2) (crg_run (WaitTimer 2) True ?a (crg_reset (WaitTimer 2))) = 0
      \<longleftrightarrow> 2 \<le> int (length (takeWhile (\<lambda>i. usr_btn i = 0) (rev ?a)))"
    using button_hold_fires_fallback [where t = 2 and ins = ?a] h by blast
  have b: "crg_rst_n (WaitTimer 2) (crg_run (WaitTimer 2) True ?b (crg_reset (WaitTimer 2))) = 0
      \<longleftrightarrow> 2 \<le> int (length (takeWhile (\<lambda>i. usr_btn i = 0) (rev ?b)))"
    using button_hold_fires_fallback [where t = 2 and ins = ?b] h by blast
  have "crg_rst_n (WaitTimer 2) (crg_run (WaitTimer 2) True ?a (crg_reset (WaitTimer 2))) = 0"
    unfolding a by simp
  moreover
  have "crg_rst_n (WaitTimer 2) (crg_run (WaitTimer 2) True ?b (crg_reset (WaitTimer 2))) \<noteq> 0"
    unfolding b by simp
  ultimately show ?thesis
    using h by (simp only: bit1_neq_0)
qed

text \<open>
  C8. Without the button, \<open>rst_n\<close> is the integer 1 and its complement is 0 on a one-bit
  signal, as the complement of a button pin at 1. So on every tick the PLL reset, the input
  \<open>wait\<close>, the registers after the edge, and with them every run and the pin \<open>rst_n\<close>,
  are those of the generator with a button whose pin is 1 throughout; this for any timer.
\<close>

theorem absent_button_is_released:
  "rst_n False b = Const 1
   \<and> reset_timer_wait (rst_n False b) = reset_timer_wait (rst_n True 1)
   \<and> crg_pll_reset False s i = crg_pll_reset True s (i\<lparr>usr_btn := 1\<rparr>)
   \<and> crg_sync tm False i s = crg_sync tm True (i\<lparr>usr_btn := 1\<rparr>) s
   \<and> crg_run tm False ins s = crg_run tm True (map (\<lambda>i. i\<lparr>usr_btn := 1\<rparr>) ins) s
   \<and> crg_rst_n tm (crg_run tm False ins s) =
       crg_rst_n tm (crg_run tm True (map (\<lambda>i. i\<lparr>usr_btn := 1\<rparr>) ins) s)"
  by (simp add: rst_n_absent rst_n_present reset_timer_wait_def crg_pll_reset_def pll_reset_def
      crg_sync_absent crg_run_absent)

text \<open>
  C9. Without the button the input \<open>wait\<close> of the timer is 0 on every tick, for any
  timer. With the wait timer, for every target, every starting value of the power-on
  counter and every sequence of inputs, the timer is idle after the run, \<open>triggered\<close> is
  false and the pin \<open>rst_n\<close> is 1.
\<close>

theorem absent_button_never_fires:
  "reset_timer_wait (rst_n False b) = 0
   \<and> reset_timer (crg_sync tm False i s) = timer_sync tm 0 (reset_timer s)
   \<and> reset_timer
        (crg_run (WaitTimer t) False ins ((crg_reset (WaitTimer t))\<lparr>por_count := c\<rparr>))
       = wait_timer_idle
   \<and> \<not> triggered (reset_timer
        (crg_run (WaitTimer t) False ins ((crg_reset (WaitTimer t))\<lparr>por_count := c\<rparr>)))
   \<and> crg_rst_n (WaitTimer t)
        (crg_run (WaitTimer t) False ins ((crg_reset (WaitTimer t))\<lparr>por_count := c\<rparr>)) = 1"
proof -
  let ?s = "crg_run (WaitTimer t) False ins ((crg_reset (WaitTimer t))\<lparr>por_count := c\<rparr>)"
  have idle: "reset_timer ?s = wait_timer_idle"
    by (simp add: crg_run_absent_timer crg_reset_def WaitTimer_reset wait_timer_run_all_False)
  have "reset_timer_wait (rst_n False b) = 0"
    by (simp add: reset_timer_wait_def invert_absent)
  moreover have "reset_timer (crg_sync tm False i s) = timer_sync tm 0 (reset_timer s)"
    by (simp add: crg_sync_def reset_timer_wait_def invert_absent)
  moreover have "\<not> triggered (reset_timer ?s)"
    by (simp add: idle wait_timer_idle_def)
  moreover have "crg_rst_n (WaitTimer t) ?s = 1"
    by (simp add: crg_rst_n_def rst_n_pin_def idle WaitTimer_done wait_timer_idle_def)
  ultimately show ?thesis
    using idle by simp
qed

text \<open>
  C10. Two runs of the generator, over any timer, whose inputs agree on the button pin on
  every tick and whose timers start in the same state, have the same timer state and the
  same pin \<open>rst_n\<close> after every number \<open>k\<close> of ticks, however the power-on counters and
  the inputs \<open>rst\<close> of the two runs differ.
\<close>

theorem watchdog_ignores_reset_inputs:
  assumes "map usr_btn ins1 = map usr_btn ins2" and "reset_timer s1 = reset_timer s2"
  shows "reset_timer (crg_run tm p (take k ins1) s1) = reset_timer (crg_run tm p (take k ins2) s2)
    \<and> crg_rst_n tm (crg_run tm p (take k ins1) s1) = crg_rst_n tm (crg_run tm p (take k ins2) s2)"
proof -
  from assms(1) have "map usr_btn (take k ins1) = map usr_btn (take k ins2)"
    by (simp add: take_map [symmetric])
  from crg_run_timer_cong [OF this assms(2)] show ?thesis
    by (simp add: crg_rst_n_def)
qed

theorem watchdog_ignores_reset_inputs_witness:
  "map usr_btn [\<lparr>usr_btn = 0, rst = 0\<rparr>, \<lparr>usr_btn = 0, rst = 0\<rparr>] =
     map usr_btn [\<lparr>usr_btn = 0, rst = 1\<rparr>, \<lparr>usr_btn = 0, rst = 1\<rparr>]
   \<and> reset_timer (crg_reset (WaitTimer 2)) =
       reset_timer \<lparr>por_count = 0, reset_timer = wait_timer_idle\<rparr>
   \<and> reset_timer (crg_run (WaitTimer 2) True
        (take 2 [\<lparr>usr_btn = 0, rst = 0\<rparr>, \<lparr>usr_btn = 0, rst = 0\<rparr>]) (crg_reset (WaitTimer 2))) =
      \<lparr>elapsed = 2, triggered = True\<rparr>
   \<and> reset_timer (crg_run (WaitTimer 2) True
        (take 2 [\<lparr>usr_btn = 0, rst = 1\<rparr>, \<lparr>usr_btn = 0, rst = 1\<rparr>])
        \<lparr>por_count = 0, reset_timer = wait_timer_idle\<rparr>) =
      \<lparr>elapsed = 2, triggered = True\<rparr>"
proof -
  let ?a = "[\<lparr>usr_btn = 0, rst = 0\<rparr>, \<lparr>usr_btn = 0, rst = 0\<rparr>]"
  let ?b = "[\<lparr>usr_btn = 0, rst = 1\<rparr>, \<lparr>usr_btn = 0, rst = 1\<rparr>]"
  have a: "map usr_btn ?a = map usr_btn ?b"
    by simp
  have b: "reset_timer (crg_reset (WaitTimer 2)) =
       reset_timer \<lparr>por_count = 0, reset_timer = wait_timer_idle\<rparr>"
    by (simp add: crg_reset_def WaitTimer_reset)
  have c: "reset_timer (crg_run (WaitTimer 2) True (take 2 ?a) (crg_reset (WaitTimer 2))) =
      \<lparr>elapsed = 2, triggered = True\<rparr>"
    by (simp add: crg_sync_def crg_reset_def WaitTimer_sync WaitTimer_reset reset_timer_wait_def
        rst_n_present wait_timer_step_def wait_timer_idle_def)
  from a b c watchdog_ignores_reset_inputs [OF a b, of "WaitTimer 2" True 2] show ?thesis
    by (simp only: simp_thms)
qed

end
